theory Spec2Isabelle
  imports Complex_Main
begin

section \<open>Time and Python truthiness\<close>

text \<open>
  \<^verbatim>\<open>time.time()\<close> returns seconds as a float; the model reads them as real numbers.
  Every call of \<^verbatim>\<open>time.time()\<close> takes the next reading from a list of readings the
  run is going to observe.  A run that asks for a reading when the list is used up has
  no result in the model (\<open>None\<close>): the list bounds how long the polling loop of the
  limiter is followed.
\<close>

type_synonym clock = "real list"

text \<open>\<^verbatim>\<open>if x:\<close> on a number that may be \<^verbatim>\<open>None\<close>: false for \<^verbatim>\<open>None\<close> and for zero.\<close>

fun truthy :: "'a::zero option \<Rightarrow> bool" where
  "truthy None = False"
| "truthy (Some x) = (x \<noteq> 0)"

section \<open>The rate limiter (utils/request\_utils.py, class APIRateLimiter)\<close>

record rate_limiter =
  rate_limit :: "int option"
  rate_second_delta :: "real option"
  request_times :: "real list"

text \<open>\<^verbatim>\<open>__init__\<close>: the deque of request times starts empty (oldest entry first).\<close>

definition APIRateLimiter :: "int option \<Rightarrow> real option \<Rightarrow> rate_limiter" where
  "APIRateLimiter rl d = \<lparr>rate_limit = rl, rate_second_delta = d, request_times = []\<rparr>"

text \<open>
  The inner loop of \<^verbatim>\<open>limit\<close>: while the deque is not empty, pop its first entry
  when \<^verbatim>\<open>now - request_times[0] > rate_second_delta\<close>, and stop at the first entry
  that is not older than that.
\<close>

fun popleft_old :: "real \<Rightarrow> real \<Rightarrow> real list \<Rightarrow> real list" where
  "popleft_old now d [] = []"
| "popleft_old now d (t # ts) = (if now - t > d then popleft_old now d ts else t # ts)"

text \<open>
  The outer \<^verbatim>\<open>while True\<close> of \<^verbatim>\<open>limit\<close>: read \<^verbatim>\<open>now\<close>, trim the deque, leave the
  loop when \<^verbatim>\<open>len(request_times) < rate_limit\<close>, otherwise sleep and poll again.  The
  sleep changes nothing but the time, which the next reading shows.  The result is the
  value of \<^verbatim>\<open>now\<close> at the \<^verbatim>\<open>break\<close>, the deque at that moment and the readings left.
\<close>

fun limit_wait :: "int \<Rightarrow> real \<Rightarrow> real list \<Rightarrow> clock \<Rightarrow> (real \<times> real list \<times> clock) option" where
  "limit_wait rl d q [] = None"
| "limit_wait rl d q (now # clk) =
     (let q' = popleft_old now d q
      in if int (length q') < rl then Some (now, q', clk) else limit_wait rl d q' clk)"

text \<open>
  \<^verbatim>\<open>limit\<close>: when both settings are truthy, wait in the loop, then append a second
  reading of the time.  Otherwise the method does nothing at all.
\<close>

definition limit :: "rate_limiter \<Rightarrow> clock \<Rightarrow> (rate_limiter \<times> clock) option" where
  "limit s clk =
     (if truthy (rate_limit s) \<and> truthy (rate_second_delta s) then
        (case limit_wait (the (rate_limit s)) (the (rate_second_delta s)) (request_times s) clk of
           None \<Rightarrow> None
         | Some (now, q, clk') \<Rightarrow>
             (case clk' of
                [] \<Rightarrow> None
              | t # clk'' \<Rightarrow> Some (s\<lparr>request_times := q @ [t]\<rparr>, clk'')))
      else Some (s, clk))"

text \<open>
  \<^verbatim>\<open>async_limit\<close> has the same body; its \<^verbatim>\<open>asyncio.sleep(0.00001)\<close> is not awaited,
  so it does not even suspend, and the state it computes is that of \<^verbatim>\<open>limit\<close>.
\<close>

definition async_limit :: "rate_limiter \<Rightarrow> clock \<Rightarrow> (rate_limiter \<times> clock) option" where
  "async_limit s clk =
     (if truthy (rate_limit s) \<and> truthy (rate_second_delta s) then
        (case limit_wait (the (rate_limit s)) (the (rate_second_delta s)) (request_times s) clk of
           None \<Rightarrow> None
         | Some (now, q, clk') \<Rightarrow>
             (case clk' of
                [] \<Rightarrow> None
              | t # clk'' \<Rightarrow> Some (s\<lparr>request_times := q @ [t]\<rparr>, clk'')))
      else Some (s, clk))"

section \<open>Exceptions, the outside world and what is printed\<close>

text \<open>
  The exceptions the code can meet.  \<open>Timeout\<close> and \<open>TooManyRedirects\<close> are the two
  subclasses of \<^verbatim>\<open>requests.exceptions.RequestException\<close> the code names;
  \<open>OtherRequestException\<close> is any other exception of that family (a refused connection,
  an unresolvable host); \<open>OtherException\<close> is an exception outside it.  \<open>IndexError\<close>,
  \<open>KeyError\<close> and \<open>AttributeError\<close> are the built-in ones raised by a choice from an
  empty list, a missing dictionary key and an attribute of \<^verbatim>\<open>None\<close>.  \<open>RetryError\<close> is
  what the retry decorator raises when it gives up.  \<open>EmptyPoolError\<close> is the error the
  specification names for an empty pool; nothing in the source raises it.
\<close>

datatype exn =
    Timeout
  | TooManyRedirects
  | OtherRequestException
  | IndexError
  | KeyError
  | AttributeError
  | RetryError
  | EmptyPoolError
  | OtherException

type_synonym proxy_entry = "string \<times> int"

text \<open>A row of the table of the proxy listing, with the three columns the code reads.\<close>

record row =
  ip_address :: string
  port :: int
  country :: string

text \<open>
  A fetched page, as far as the crawler looks at it: the \<^verbatim>\<open>href\<close> of every anchor that
  has one, in document order (\<^verbatim>\<open>soup.find_all('a', href=True)\<close>), and whether an
  element with id \<^verbatim>\<open>error-404\<close> is present.  Parsing the markup is outside the model:
  the text of a response is taken as already parsed.
\<close>

record document =
  hrefs :: "string list"
  error_404 :: bool

text \<open>
  A response of the transport.  A \<^verbatim>\<open>requests.Response\<close> is truthy exactly when its
  \<open>ok\<close> is true.
\<close>

record response =
  ok :: bool
  resp_text :: document

text \<open>Of the \<^verbatim>\<open>print\<close> calls, those that record a decision are kept, as events.\<close>

datatype event =
    StartingScrape string
  | UsingProxy proxy_entry
  | RemovingBadProxy proxy_entry
  | SomethingWentWrong
  | DepthLimitReached

text \<open>
  Everything the run takes from outside, each in the order it is asked for: the readings
  of \<^verbatim>\<open>time.time()\<close>, the numbers drawn by \<^verbatim>\<open>random.choice\<close>, the outcome of every
  download and parse of the proxy listing, and the outcome of every request handed to the
  transport.  A run that asks for more than the world holds has no result (\<open>None\<close>).
  What is printed is collected in \<open>stdout\<close>.  The URL strings do not decide any branch,
  so they are not part of the model: the outcome of a request is the next one in
  \<open>transports\<close>, whatever its URL.
\<close>

record world =
  clock :: clock
  randoms :: "nat list"
  listings :: "(exn + row list) list"
  transports :: "(exn + response) list"
  stdout :: "event list"

definition print :: "event \<Rightarrow> world \<Rightarrow> world" where
  "print e w = w\<lparr>stdout := stdout w @ [e]\<rparr>"

section \<open>The proxy pool (proxy.py, class Proxy)\<close>

record proxy =
  proxy_list :: "proxy_entry list"
  last_rotate_time :: "real option"
  offset :: real

text \<open>
  \<^verbatim>\<open>__init__\<close>.  The constant \<^verbatim>\<open>ROTATE_PROXY_OFFSET\<close> comes from a configuration
  module that is not among the sources; it is a parameter here.
\<close>

definition Proxy :: "real \<Rightarrow> proxy" where
  "Proxy rotate_proxy_offset =
     \<lparr>proxy_list = [], last_rotate_time = None, offset = rotate_proxy_offset\<rparr>"

definition check_time :: "proxy \<Rightarrow> world \<Rightarrow> (bool \<times> world) option" where
  "check_time p w =
     (case clock w of
        [] \<Rightarrow> None
      | current_time # c \<Rightarrow>
          Some ((case last_rotate_time p of
                   None \<Rightarrow> True
                 | Some rotated \<Rightarrow> current_time - rotated \<ge> offset p),
                w\<lparr>clock := c\<rparr>))"

text \<open>The rows whose country is \<^verbatim>\<open>United States\<close>, projected to address and port.\<close>

definition united_states :: "row list \<Rightarrow> proxy_entry list" where
  "united_states table =
     map (\<lambda>r. (ip_address r, port r)) (filter (\<lambda>r. country r = ''United States'') table)"

text \<open>
  \<^verbatim>\<open>rotate_proxies\<close>: \<^verbatim>\<open>_check_time()\<close> is evaluated first, then the length test.  A
  failure of the download or of the parse is an exception that leaves the pool as it was.
\<close>

definition rotate_proxies :: "proxy \<Rightarrow> world \<Rightarrow> ((exn + unit) \<times> proxy \<times> world) option" where
  "rotate_proxies p w =
     (case check_time p w of
        None \<Rightarrow> None
      | Some (due, w1) \<Rightarrow>
          if due \<or> length (proxy_list p) < 5 then
            (case listings w1 of
               [] \<Rightarrow> None
             | Inl e # ls \<Rightarrow> Some (Inl e, p, w1\<lparr>listings := ls\<rparr>)
             | Inr table # ls \<Rightarrow>
                 (case clock w1 of
                    [] \<Rightarrow> None
                  | t # c \<Rightarrow>
                      Some (Inr (),
                            p\<lparr>proxy_list := united_states table, last_rotate_time := Some t\<rparr>,
                            w1\<lparr>listings := ls, clock := c\<rparr>)))
          else Some (Inr (), p, w1))"

text \<open>
  \<^verbatim>\<open>_remove_proxy\<close>: \<^verbatim>\<open>list.remove\<close> deletes the first entry equal to the argument;
  the membership test before it keeps it from raising.
\<close>

definition remove_proxy :: "proxy_entry \<Rightarrow> proxy \<Rightarrow> proxy" where
  "remove_proxy x p =
     (if proxy_list p \<noteq> [] \<and> x \<in> set (proxy_list p)
      then p\<lparr>proxy_list := remove1 x (proxy_list p)\<rparr>
      else p)"

definition remove_bad_proxy :: "proxy_entry \<Rightarrow> proxy \<Rightarrow> world \<Rightarrow> proxy \<times> world" where
  "remove_bad_proxy x p w = (remove_proxy x p, print (RemovingBadProxy x) w)"

section \<open>The scraper (scraper.py, class Scraper)\<close>

text \<open>
  \<^verbatim>\<open>random.choice\<close>: \<^verbatim>\<open>IndexError\<close> on an empty sequence, otherwise the element at a
  drawn index below the length.
\<close>

definition random_choice :: "'a list \<Rightarrow> world \<Rightarrow> ((exn + 'a) \<times> world) option" where
  "random_choice xs w =
     (if xs = [] then Some (Inl IndexError, w)
      else (case randoms w of
              [] \<Rightarrow> None
            | r # rs \<Rightarrow> Some (Inr (xs ! (r mod length xs)), w\<lparr>randoms := rs\<rparr>)))"

record scraper =
  urls :: "string list"
  visited :: "string set"
  current_page :: int
  current_counter :: int
  depth :: int
  proxy_obj :: proxy
  rate_limiter :: rate_limiter

definition Scraper :: "int \<Rightarrow> real \<Rightarrow> scraper" where
  "Scraper d rotate_proxy_offset =
     \<lparr>urls = [], visited = {}, current_page = 1, current_counter = 0, depth = d,
      proxy_obj = Proxy rotate_proxy_offset,
      rate_limiter = APIRateLimiter (Some 10) (Some 1)\<rparr>"

text \<open>
  The result of a method that may raise: \<open>None\<close> when the world runs out, otherwise the
  exception (\<open>Inl\<close>) or the value (\<open>Inr\<close>), with the scraper and the world as the call
  leaves them.  An exception does not undo the changes made before it.
\<close>

type_synonym 'a run = "((exn + 'a) \<times> scraper \<times> world) option"

text \<open>
  \<^verbatim>\<open>with self._rate_limiter: return get(...)\<close>: entering the block calls \<^verbatim>\<open>limit()\<close>,
  then the request goes to the transport; leaving the block does nothing.
\<close>

definition limited_get :: "scraper \<Rightarrow> world \<Rightarrow> response run" where
  "limited_get s w =
     (case limit (rate_limiter s) (clock w) of
        None \<Rightarrow> None
      | Some (rl, c) \<Rightarrow>
          (case transports w of
             [] \<Rightarrow> None
           | outcome # ts \<Rightarrow>
               Some (outcome, s\<lparr>rate_limiter := rl\<rparr>, w\<lparr>clock := c, transports := ts\<rparr>)))"

text \<open>
  The first lines of the proxied branch of \<^verbatim>\<open>_make_request\<close>, which stand before its
  \<^verbatim>\<open>try\<close>: rotate the pool, choose an entry at random and print it.  The helper
  \<^verbatim>\<open>format_proxy\<close> (not among the sources) only rewrites the chosen entry for the
  transport.
\<close>

definition select_proxy :: "scraper \<Rightarrow> world \<Rightarrow> proxy_entry run" where
  "select_proxy s w =
     (case rotate_proxies (proxy_obj s) w of
        None \<Rightarrow> None
      | Some (Inl e, p, w1) \<Rightarrow> Some (Inl e, s\<lparr>proxy_obj := p\<rparr>, w1)
      | Some (Inr u, p, w1) \<Rightarrow>
          (case random_choice (proxy_list p) w1 of
             None \<Rightarrow> None
           | Some (Inl e, w2) \<Rightarrow> Some (Inl e, s\<lparr>proxy_obj := p\<rparr>, w2)
           | Some (Inr proxy_choice, w2) \<Rightarrow>
               Some (Inr proxy_choice, s\<lparr>proxy_obj := p\<rparr>, print (UsingProxy proxy_choice) w2)))"

text \<open>
  The body of \<^verbatim>\<open>_make_request\<close>, one attempt.  With a proxy, the three \<^verbatim>\<open>except\<close>
  clauses are tried in the order of the source: a timeout removes the proxy and is raised
  again; too many redirects and any other request exception fall through to the end of
  the function, which returns \<^verbatim>\<open>None\<close>; any other exception is not caught.  Without a
  proxy, \<^verbatim>\<open>except Exception\<close> catches everything and the function returns \<^verbatim>\<open>None\<close>.
\<close>

definition make_request_body :: "bool \<Rightarrow> scraper \<Rightarrow> world \<Rightarrow> response option run" where
  "make_request_body use_proxy s w =
     (if use_proxy then
        (case select_proxy s w of
           None \<Rightarrow> None
         | Some (Inl e, s1, w1) \<Rightarrow> Some (Inl e, s1, w1)
         | Some (Inr proxy_choice, s1, w1) \<Rightarrow>
             (case limited_get s1 w1 of
                None \<Rightarrow> None
              | Some (Inr resp, s2, w2) \<Rightarrow> Some (Inr (Some resp), s2, w2)
              | Some (Inl e, s2, w2) \<Rightarrow>
                  if e = Timeout then
                    (let (p, w3) = remove_bad_proxy proxy_choice (proxy_obj s2) w2
                     in Some (Inl Timeout, s2\<lparr>proxy_obj := p\<rparr>, w3))
                  else if e = TooManyRedirects then Some (Inr None, s2, w2)
                  else if e = OtherRequestException then Some (Inr None, s2, w2)
                  else Some (Inl e, s2, w2)))
      else
        (case limited_get s w of
           None \<Rightarrow> None
         | Some (Inr resp, s2, w2) \<Rightarrow> Some (Inr (Some resp), s2, w2)
         | Some (Inl e, s2, w2) \<Rightarrow> Some (Inr None, s2, w2)))"

text \<open>
  The decorator \<^verbatim>\<open>@retry(retry=retry_if_exception_type(Timeout),
  wait=wait_random_exponential(multiplier=0.5, max=10), stop=stop_after_attempt(3))\<close>:
  the body is called again when it raised a timeout, until the attempt that has just
  failed is the third, and then \<^verbatim>\<open>RetryError\<close> is raised; any other exception and any
  returned value pass through.  The wait between two attempts is a sleep: it shows in
  the later readings of the clock only.  (In the source the argument list of the decorator
  lacks the comma before \<^verbatim>\<open>stop\<close>, and \<^verbatim>\<open>stop_after_attempt\<close> is not imported; the
  model takes the three arguments as they are listed.)
\<close>

function retrying :: "nat \<Rightarrow> bool \<Rightarrow> scraper \<Rightarrow> world \<Rightarrow> response option run" where
  "retrying attempt_number use_proxy s w =
     (case make_request_body use_proxy s w of
        None \<Rightarrow> None
      | Some (Inr r, s', w') \<Rightarrow> Some (Inr r, s', w')
      | Some (Inl e, s', w') \<Rightarrow>
          if e = Timeout then
            (if attempt_number \<ge> 3 then Some (Inl RetryError, s', w')
             else retrying (attempt_number + 1) use_proxy s' w')
          else Some (Inl e, s', w'))"
  by pat_completeness auto
termination
  by (relation "measure (\<lambda>(n, u, s, w). 3 - n)") auto

declare retrying.simps [simp del]

definition make_request :: "bool \<Rightarrow> scraper \<Rightarrow> world \<Rightarrow> response option run" where
  "make_request use_proxy s w = retrying 1 use_proxy s w"

text \<open>\<^verbatim>\<open>str.startswith\<close>.\<close>

fun startswith :: "string \<Rightarrow> string \<Rightarrow> bool" where
  "startswith s [] = True"
| "startswith [] (p # ps) = False"
| "startswith (c # cs) (p # ps) = (c = p \<and> startswith cs ps)"

definition detail_link :: "string \<Rightarrow> bool" where
  "detail_link href = startswith href ''/realestateandhomes-detail/''"

text \<open>
  The loop of \<^verbatim>\<open>_collect_urls\<close> over the anchors.  \<^verbatim>\<open>BASE_URL_MAP\<close> comes from the
  configuration module that is not among the sources; it is a parameter, and a site it
  does not hold raises \<^verbatim>\<open>KeyError\<close> at the first link to be appended.
\<close>

fun collect_links ::
  "(string \<rightharpoonup> string) \<Rightarrow> string \<Rightarrow> string list \<Rightarrow> scraper \<Rightarrow> (exn + unit) \<times> scraper" where
  "collect_links base_url_map site [] s = (Inr (), s)"
| "collect_links base_url_map site (href # links) s =
     (if current_counter s \<ge> depth s then (Inr (), s)
      else if detail_link href then
        (case base_url_map site of
           None \<Rightarrow> (Inl KeyError, s)
         | Some base \<Rightarrow>
             collect_links base_url_map site links
               (s\<lparr>urls := urls s @ [base @ href], current_counter := current_counter s + 1\<rparr>))
      else collect_links base_url_map site links s)"

definition collect_urls ::
  "(string \<rightharpoonup> string) \<Rightarrow> document \<Rightarrow> string \<Rightarrow> scraper \<Rightarrow> (exn + unit) \<times> scraper" where
  "collect_urls base_url_map soup site s = collect_links base_url_map site (hrefs soup) s"

text \<open>
  \<^verbatim>\<open>_next_page\<close>: fetch the page numbered \<open>current_page\<close>, read \<^verbatim>\<open>resp.text\<close> (an
  \<^verbatim>\<open>AttributeError\<close> when the request returned \<^verbatim>\<open>None\<close>), then increment the page
  number; the result is the page unless it carries the not-found marker.
\<close>

definition next_page :: "string \<Rightarrow> scraper \<Rightarrow> world \<Rightarrow> document option run" where
  "next_page site s w =
     (if site = ''realtor.com'' then
        (case make_request True s w of
           None \<Rightarrow> None
         | Some (Inl e, s1, w1) \<Rightarrow> Some (Inl e, s1, w1)
         | Some (Inr None, s1, w1) \<Rightarrow> Some (Inl AttributeError, s1, w1)
         | Some (Inr (Some resp), s1, w1) \<Rightarrow>
             (let soup = resp_text resp;
                  s2 = s1\<lparr>current_page := current_page s1 + 1\<rparr>
              in if \<not> error_404 soup then Some (Inr (Some soup), s2, w1)
                 else Some (Inr None, s2, w1)))
      else Some (Inr None, s, w))"

text \<open>What \<^verbatim>\<open>_request\<close> hands back: \<^verbatim>\<open>True\<close>, \<^verbatim>\<open>False\<close>, or \<^verbatim>\<open>None\<close> when it ends without a \<^verbatim>\<open>return\<close>.\<close>

datatype status = PyTrue | PyFalse | PyNone

text \<open>
  \<^verbatim>\<open>_request\<close>.  In the source the \<^verbatim>\<open>return True\<close> stands inside the \<^verbatim>\<open>while True\<close>,
  after the \<^verbatim>\<open>if\<close> on the site, so the body of the loop runs once and every path
  leaves it: for another site by \<^verbatim>\<open>return True\<close>; for \<^verbatim>\<open>realtor.com\<close> by
  \<^verbatim>\<open>return True\<close> when the page advanced, by \<^verbatim>\<open>return False\<close> when the frontier did
  not grow, and by \<^verbatim>\<open>break\<close> after the reset of the counter and the page, which ends
  the function without a value.  The page that \<^verbatim>\<open>_next_page\<close> fetched is not looked at
  again.
\<close>

definition request :: "(string \<rightharpoonup> string) \<Rightarrow> string \<Rightarrow> scraper \<Rightarrow> world \<Rightarrow> status run" where
  "request base_url_map site s w =
     (case make_request True s w of
        None \<Rightarrow> None
      | Some (Inl e, s1, w1) \<Rightarrow> Some (Inl e, s1, w1)
      | Some (Inr None, s1, w1) \<Rightarrow> Some (Inl AttributeError, s1, w1)
      | Some (Inr (Some resp), s1, w1) \<Rightarrow>
          (let soup = resp_text resp;
               previous_url_count = length (urls s1)
           in if site = ''realtor.com'' then
                (case collect_urls base_url_map soup site s1 of
                   (Inl e, s2) \<Rightarrow> Some (Inl e, s2, w1)
                 | (Inr u, s2) \<Rightarrow>
                     (case next_page site s2 w1 of
                        None \<Rightarrow> None
                      | Some (Inl e, s3, w3) \<Rightarrow> Some (Inl e, s3, w3)
                      | Some (Inr soup', s3, w3) \<Rightarrow>
                          if current_counter s3 < depth s3 \<and> ok resp
                             \<and> length (urls s3) > previous_url_count
                          then Some (Inr PyTrue, s3, w3)
                          else if length (urls s3) \<le> previous_url_count
                          then Some (Inr PyFalse, s3, print SomethingWentWrong w3)
                          else Some (Inr PyNone, s3\<lparr>current_counter := 0, current_page := 2\<rparr>,
                                     print DepthLimitReached w3)))
              else Some (Inr PyTrue, s1, w1)))"

text \<open>
  \<^verbatim>\<open>navigate\<close>: the loop over the locations stops at the first one whose
  \<^verbatim>\<open>_request\<close> gave \<^verbatim>\<open>False\<close>; \<^verbatim>\<open>None == False\<close> is false, so \<^verbatim>\<open>None\<close> goes on.
\<close>

fun navigate ::
  "(string \<rightharpoonup> string) \<Rightarrow> string \<Rightarrow> string list \<Rightarrow> scraper \<Rightarrow> world \<Rightarrow> unit run" where
  "navigate base_url_map site [] s w = Some (Inr (), s, w)"
| "navigate base_url_map site (location # locations) s w =
     (case request base_url_map site s (print (StartingScrape location) w) of
        None \<Rightarrow> None
      | Some (Inl e, s', w') \<Rightarrow> Some (Inl e, s', w')
      | Some (Inr request_status, s', w') \<Rightarrow>
          if request_status = PyFalse then Some (Inr (), s', w')
          else navigate base_url_map site locations s' w')"

text \<open>
  \<^verbatim>\<open>scrape\<close>: one proxied request for every URL of the frontier, \<^verbatim>\<open>resp.text\<close> read
  from each result.  The result is the list of pages that would be written to disk.
\<close>

fun scrape_pages :: "string list \<Rightarrow> document list \<Rightarrow> scraper \<Rightarrow> world \<Rightarrow> document list run" where
  "scrape_pages [] pages s w = Some (Inr pages, s, w)"
| "scrape_pages (url # rest) pages s w =
     (case make_request True s w of
        None \<Rightarrow> None
      | Some (Inl e, s1, w1) \<Rightarrow> Some (Inl e, s1, w1)
      | Some (Inr None, s1, w1) \<Rightarrow> Some (Inl AttributeError, s1, w1)
      | Some (Inr (Some resp), s1, w1) \<Rightarrow> scrape_pages rest (pages @ [resp_text resp]) s1 w1)"

definition scrape :: "scraper \<Rightarrow> world \<Rightarrow> document list run" where
  "scrape s w = scrape_pages (urls s) [] s w"

section \<open>Vocabulary of the properties\<close>

text \<open>
  A sequence of \<open>n\<close> calls of \<^verbatim>\<open>limit\<close> on one limiter; the result lists the time stamp
  each call appended, in order, whatever was trimmed from the deque later.
\<close>

fun admit_seq :: "nat \<Rightarrow> rate_limiter \<Rightarrow> clock \<Rightarrow> (real list \<times> rate_limiter \<times> clock) option" where
  "admit_seq 0 s clk = Some ([], s, clk)"
| "admit_seq (Suc n) s clk =
     (case limit s clk of
        None \<Rightarrow> None
      | Some (s', clk') \<Rightarrow>
          (case admit_seq n s' clk' of
             None \<Rightarrow> None
           | Some (ts, s'', clk'') \<Rightarrow> Some (last (request_times s') # ts, s'', clk'')))"

text \<open>The trailing window of \<open>d\<close> seconds that ends at \<open>T\<close>.\<close>

definition in_window :: "real \<Rightarrow> real \<Rightarrow> real \<Rightarrow> bool" where
  "in_window d T x = (T - d \<le> x \<and> x \<le> T)"

text \<open>
  The invariant of a sequence of admissions, over the stamps \<open>h\<close> recorded so far: the
  stamps and the readings to come are in order, the deque holds the recorded stamps from
  some bound on, a bound every later reading is at least \<open>d\<close> beyond, and the two
  properties of the stamps hold.
\<close>

definition window_ok :: "int \<Rightarrow> real \<Rightarrow> real list \<Rightarrow> bool" where
  "window_ok rl d h = (\<forall>T. int (length (filter (in_window d T) h)) \<le> rl)"

definition append_ok :: "int \<Rightarrow> real \<Rightarrow> real list \<Rightarrow> bool" where
  "append_ok rl d h =
     (\<forall>k < length h. \<exists>now. now \<le> h ! k \<and> int (length (filter (\<lambda>x. now - x \<le> d) (take k h))) < rl)"

definition limiter_inv :: "int \<Rightarrow> real \<Rightarrow> real list \<Rightarrow> rate_limiter \<Rightarrow> clock \<Rightarrow> bool" where
  "limiter_inv rl d h s clk =
     (rate_limit s = Some rl \<and> rate_second_delta s = Some d \<and> sorted (h @ clk)
      \<and> (\<exists>b. request_times s = filter (\<lambda>x. b \<le> x) h \<and> (\<forall>c \<in> set clk. b \<le> c - d))
      \<and> window_ok rl d h \<and> append_ok rl d h)"

text \<open>The entries that \<^verbatim>\<open>remove_bad_proxy\<close> was called with, read off the output.\<close>

fun evictions :: "event list \<Rightarrow> proxy_entry list" where
  "evictions [] = []"
| "evictions (RemovingBadProxy x # es) = x # evictions es"
| "evictions (e # es) = evictions es"

section \<open>The rate limiter: the window bound\<close>

lemma popleft_old_sorted:
  "sorted q \<Longrightarrow> popleft_old now d q = filter (\<lambda>x. now - x \<le> d) q"
proof (induction q)
  case Nil
  then show ?case by simp
next
  case (Cons t ts)
  show ?case
  proof (cases "now - t > d")
    case True
    with Cons show ?thesis by simp
  next
    case False
    have "\<forall>x\<in>set ts. now - x \<le> d" using Cons.prems False by auto
    then have "filter (\<lambda>x. now - x \<le> d) ts = ts" by simp
    with False show ?thesis by simp
  qed
qed

lemma limit_wait_sorted:
  assumes "sorted q" "sorted clk" "limit_wait rl d q clk = Some (now, q', clk')"
  shows "q' = filter (\<lambda>x. now - x \<le> d) q \<and> int (length q') < rl \<and> (\<exists>pre. clk = pre @ now # clk')"
  using assms
proof (induction clk arbitrary: q)
  case Nil
  then show ?case by simp
next
  case (Cons c clk)
  let ?q1 = "popleft_old c d q"
  have q1: "?q1 = filter (\<lambda>x. c - x \<le> d) q" using Cons.prems(1) by (rule popleft_old_sorted)
  show ?case
  proof (cases "int (length ?q1) < rl")
    case True
    with Cons.prems(3) have "now = c \<and> q' = ?q1 \<and> clk' = clk" by (auto simp: Let_def)
    with True q1 show ?thesis by auto
  next
    case False
    with Cons.prems(3) have w: "limit_wait rl d ?q1 clk = Some (now, q', clk')" by (simp add: Let_def)
    have s1: "sorted ?q1" unfolding q1 using Cons.prems(1) by (rule sorted_wrt_filter)
    have s2: "sorted clk" using Cons.prems(2) by simp
    from Cons.IH [OF s1 s2 w] obtain pre where
      a: "q' = filter (\<lambda>x. now - x \<le> d) ?q1" and b: "int (length q') < rl" and c: "clk = pre @ now # clk'"
      by blast
    have "c \<le> now" using Cons.prems(2) c by auto
    then have "filter (\<lambda>x. now - x \<le> d) (filter (\<lambda>x. c - x \<le> d) q) = filter (\<lambda>x. now - x \<le> d) q"
      by (auto intro: filter_cong)
    with a q1 have "q' = filter (\<lambda>x. now - x \<le> d) q" by simp
    moreover have "c # clk = (c # pre) @ now # clk'" using c by simp
    ultimately show ?thesis using b by blast
  qed
qed

lemma length_filter_mono:
  "(\<And>x. x \<in> set xs \<Longrightarrow> P x \<Longrightarrow> Q x) \<Longrightarrow> length (filter P xs) \<le> length (filter Q xs)"
  by (induction xs) auto

lemma limit_step:
  assumes inv: "limiter_inv rl d h s clk" and pos: "0 < rl" "0 < d"
    and lim: "limit s clk = Some (s', clk')"
  shows "limiter_inv rl d (h @ [last (request_times s')]) s' clk'"
proof -
  from inv obtain b where
    rl: "rate_limit s = Some rl" and dl: "rate_second_delta s = Some d"
    and srt: "sorted (h @ clk)"
    and rt: "request_times s = filter (\<lambda>x. b \<le> x) h" and bb: "\<forall>c \<in> set clk. b \<le> c - d"
    and wo: "window_ok rl d h" and ao: "append_ok rl d h"
    unfolding limiter_inv_def by blast
  have tr: "truthy (rate_limit s) \<and> truthy (rate_second_delta s)" using rl dl pos by simp
  from lim tr rl dl obtain now q t where
    w: "limit_wait rl d (request_times s) clk = Some (now, q, t # clk')"
    and s': "s' = s\<lparr>request_times := q @ [t]\<rparr>"
    by (auto simp: limit_def split: option.splits list.splits)
  have sh: "sorted h" and sc: "sorted clk" and hc: "\<forall>x\<in>set h. \<forall>c\<in>set clk. x \<le> c"
    using srt by (auto simp: sorted_append)
  have sq: "sorted (request_times s)" unfolding rt using sh by (rule sorted_wrt_filter)
  from limit_wait_sorted [OF sq sc w] obtain pre where
    q: "q = filter (\<lambda>x. now - x \<le> d) (request_times s)" and ql: "int (length q) < rl"
    and clk: "clk = pre @ now # t # clk'"
    by blast
  have now_in: "now \<in> set clk" and t_in: "t \<in> set clk" using clk by auto
  have now_t: "now \<le> t" using sc clk by (auto simp: sorted_append)
  have b_now: "b \<le> now - d" using bb now_in by blast
  have qh: "q = filter (\<lambda>x. now - d \<le> x) h"
    unfolding q rt using b_now by (auto intro: filter_cong)
  have last: "last (request_times s') = t" using s' by simp
  have h_t: "\<forall>x\<in>set h. x \<le> t" using hc t_in by blast
  have "sorted ((h @ [t]) @ clk')"
    using srt clk by (auto simp: sorted_append)
  moreover have "request_times s' = filter (\<lambda>x. now - d \<le> x) (h @ [t])"
    using s' qh now_t pos by simp
  moreover have "\<forall>c \<in> set clk'. now - d \<le> c - d"
    using sc clk by (auto simp: sorted_append)
  moreover have "window_ok rl d (h @ [t])"
    unfolding window_ok_def
  proof
    fix T
    show "int (length (filter (in_window d T) (h @ [t]))) \<le> rl"
    proof (cases "in_window d T t")
      case False
      then show ?thesis using wo by (simp add: window_ok_def)
    next
      case True
      have "length (filter (in_window d T) h) \<le> length (filter (\<lambda>x. now - d \<le> x) h)"
      proof (rule length_filter_mono)
        fix x assume "x \<in> set h" "in_window d T x"
        then show "now - d \<le> x" using True now_t by (simp add: in_window_def)
      qed
      then show ?thesis using True ql qh by simp
    qed
  qed
  moreover have "append_ok rl d (h @ [t])"
    unfolding append_ok_def
  proof (intro allI impI)
    fix k assume k: "k < length (h @ [t])"
    show "\<exists>now. now \<le> (h @ [t]) ! k \<and> int (length (filter (\<lambda>x. now - x \<le> d) (take k (h @ [t])))) < rl"
    proof (cases "k < length h")
      case True
      then show ?thesis using ao by (simp add: append_ok_def nth_append)
    next
      case False
      with k have kk: "k = length h" by simp
      have "filter (\<lambda>x. now - x \<le> d) h = q" unfolding qh by (auto intro: filter_cong)
      then show ?thesis using kk now_t ql by (intro exI [of _ now]) simp
    qed
  qed
  ultimately show ?thesis
    unfolding limiter_inv_def last using rl dl s' by auto
qed


lemma limit_wait_below_limit:
  "limit_wait rl d q clk = Some (now, q', clk') \<Longrightarrow> int (length q') < rl"
  by (induction clk arbitrary: q) (auto simp: Let_def split: if_splits)

lemma limit_appends_below_limit:
  assumes "truthy (rate_limit s)" "truthy (rate_second_delta s)" "limit s clk = Some (s', clk')"
  shows "\<exists>q t. request_times s' = q @ [t] \<and> int (length q) < the (rate_limit s)"
proof -
  from assms obtain now q t where
    w: "limit_wait (the (rate_limit s)) (the (rate_second_delta s)) (request_times s) clk
          = Some (now, q, t # clk')"
    and s': "s' = s\<lparr>request_times := q @ [t]\<rparr>"
    by (auto simp: limit_def split: option.splits list.splits)
  from w have "int (length q) < the (rate_limit s)" by (rule limit_wait_below_limit)
  with s' show ?thesis by simp
qed

lemma admit_seq_inv:
  assumes "0 < rl" "0 < d"
  shows "limiter_inv rl d h s clk \<Longrightarrow> admit_seq n s clk = Some (ts, s', clk')
    \<Longrightarrow> limiter_inv rl d (h @ ts) s' clk' \<and> length ts = n"
proof (induction n arbitrary: h s clk ts)
  case 0
  then show ?case by simp
next
  case (Suc n)
  from Suc.prems(2) obtain s1 clk1 ts1 where
    l: "limit s clk = Some (s1, clk1)" and r: "admit_seq n s1 clk1 = Some (ts1, s', clk')"
    and ts: "ts = last (request_times s1) # ts1"
    by (auto split: option.splits)
  have "limiter_inv rl d (h @ [last (request_times s1)]) s1 clk1"
    using Suc.prems(1) assms l by (rule limit_step)
  from Suc.IH [OF this r] show ?case using ts by simp
qed

lemma limiter_inv_fresh:
  assumes "sorted clk" "0 < rl"
  shows "limiter_inv rl d [] (APIRateLimiter (Some rl) (Some d)) clk"
proof -
  have "\<exists>b. \<forall>c \<in> set clk. b \<le> c - d"
  proof (cases clk)
    case Nil
    then show ?thesis by simp
  next
    case (Cons c cs)
    then have "\<forall>x \<in> set clk. c - d \<le> x - d" using assms by auto
    then show ?thesis by blast
  qed
  then show ?thesis
    using assms by (simp add: limiter_inv_def APIRateLimiter_def window_ok_def append_ok_def)
qed

text \<open>
  C1. Take a limiter built with positive \<open>rate_limit\<close> and \<open>rate_second_delta\<close>, a
  clock that does not run backwards, and any number \<open>n\<close> of calls of \<^verbatim>\<open>limit\<close> that
  all return; let \<open>ts\<close> be the time stamps they recorded.  Every call recorded one.  At
  the moment the \<open>k\<close>-th stamp was appended there was the reading \<open>now\<close> of the loop, not
  later than the stamp, such that the stamps recorded before and still within
  \<open>rate_second_delta\<close> of \<open>now\<close> were fewer than \<open>rate_limit\<close>.  And no trailing window
  of \<open>rate_second_delta\<close> seconds, whatever its end \<open>T\<close>, holds more than \<open>rate_limit\<close>
  recorded stamps.
\<close>

theorem limit_window_bound:
  assumes "0 < rl" "0 < d" "sorted clk"
    and "admit_seq n (APIRateLimiter (Some rl) (Some d)) clk = Some (ts, s', clk')"
  shows "length ts = n
    \<and> (\<forall>k < n. \<exists>now. now \<le> ts ! k
           \<and> int (length (filter (\<lambda>x. now - x \<le> d) (take k ts))) < rl)
    \<and> (\<forall>T. int (length (filter (in_window d T) ts)) \<le> rl)"
proof -
  have "limiter_inv rl d [] (APIRateLimiter (Some rl) (Some d)) clk"
    using assms(3,1) by (rule limiter_inv_fresh)
  from admit_seq_inv [OF assms(1,2) this assms(4)]
  show ?thesis by (simp add: limiter_inv_def window_ok_def append_ok_def)
qed

theorem limit_window_bound_witness:
  "admit_seq 3 (APIRateLimiter (Some 2) (Some 1)) [0, 0, 0, 0, 1/2, 1, 3/2, 3/2, 2]
     = Some ([0, 0, 3/2], \<lparr>rate_limit = Some 2, rate_second_delta = Some 1, request_times = [3/2]\<rparr>, [2])
   \<and> (\<forall>T. int (length (filter (in_window 1 T) [0, 0, 3/2])) \<le> 2)"
proof -
  have run: "admit_seq 3 (APIRateLimiter (Some 2) (Some 1)) [0, 0, 0, 0, 1/2, 1, 3/2, 3/2, 2]
     = Some ([0, 0, 3/2], \<lparr>rate_limit = Some 2, rate_second_delta = Some 1, request_times = [3/2]\<rparr>, [2])"
    by (simp add: numeral_3_eq_3 limit_def APIRateLimiter_def)
  have "sorted [0, 0, 0, 0, 1/2, 1, 3/2, 3/2, (2::real)]" by simp
  from limit_window_bound [OF _ _ this run] run show ?thesis by simp
qed

section \<open>Unset or zero settings: no limiting\<close>

text \<open>
  C9. A limiter whose \<open>rate_limit\<close> or \<open>rate_second_delta\<close> is unset (\<open>None\<close>) or zero
  admits at once, from the blocking and from the cooperative entry point: the call
  returns whatever the clock is (no reading is taken, so there is no wait), and the
  limiter, with its window of request times, is unchanged.
\<close>

theorem limit_unset_unconditional:
  assumes "\<not> truthy (rate_limit s) \<or> \<not> truthy (rate_second_delta s)"
  shows "limit s clk = Some (s, clk) \<and> async_limit s clk = Some (s, clk)"
  using assms by (auto simp: limit_def async_limit_def)

theorem limit_unset_unconditional_witness:
  "limit (APIRateLimiter None (Some 1)) [] = Some (APIRateLimiter None (Some 1), [])
   \<and> async_limit (APIRateLimiter None (Some 1)) [] = Some (APIRateLimiter None (Some 1), [])
   \<and> limit (APIRateLimiter (Some 10) (Some 0)) [5] = Some (APIRateLimiter (Some 10) (Some 0), [5])
   \<and> async_limit (APIRateLimiter (Some 10) (Some 0)) [5] = Some (APIRateLimiter (Some 10) (Some 0), [5])"
  using limit_unset_unconditional [of "APIRateLimiter None (Some 1)" "[]"]
    limit_unset_unconditional [of "APIRateLimiter (Some 10) (Some 0)" "[5]"]
  by (simp add: APIRateLimiter_def)

section \<open>The proxy pool: eviction\<close>

text \<open>
  Against C8 as it is stated. A pool that holds the same entry twice: the first eviction removes one copy and leaves
  the other, the second eviction removes the other, so evicting twice is not the same as
  evicting once, and after one eviction the entry is still in the pool.
\<close>

theorem remove_proxy_twice_counterexample:
  "remove_proxy (''1.1.1.1'', 80)
     (remove_proxy (''1.1.1.1'', 80)
        \<lparr>proxy_list = [(''1.1.1.1'', 80), (''1.1.1.1'', 80)], last_rotate_time = None, offset = 0\<rparr>)
   \<noteq> remove_proxy (''1.1.1.1'', 80)
        \<lparr>proxy_list = [(''1.1.1.1'', 80), (''1.1.1.1'', 80)], last_rotate_time = None, offset = 0\<rparr>
   \<and> (''1.1.1.1'', 80) \<in> set (proxy_list (remove_proxy (''1.1.1.1'', 80)
        \<lparr>proxy_list = [(''1.1.1.1'', 80), (''1.1.1.1'', 80)], last_rotate_time = None, offset = 0\<rparr>))"
  by (simp add: remove_proxy_def)

text \<open>What \<^verbatim>\<open>list.remove\<close> does to a list that holds the element.\<close>

lemma remove1_first_occurrence:
  "x \<in> set xs \<Longrightarrow> \<exists>ys zs. xs = ys @ x # zs \<and> x \<notin> set ys \<and> remove1 x xs = ys @ zs"
proof (induction xs)
  case Nil
  then show ?case by simp
next
  case (Cons a xs)
  show ?case
  proof (cases "a = x")
    case True
    then have "a # xs = [] @ x # xs \<and> x \<notin> set [] \<and> remove1 x (a # xs) = [] @ xs" by simp
    then show ?thesis by blast
  next
    case False
    with Cons obtain ys zs where "xs = ys @ x # zs" "x \<notin> set ys" "remove1 x xs = ys @ zs" by auto
    with False have "a # xs = (a # ys) @ x # zs \<and> x \<notin> set (a # ys) \<and> remove1 x (a # xs) = (a # ys) @ zs"
      by auto
    then show ?thesis by blast
  qed
qed

lemma remove1_once_absent:
  "count_list xs x \<le> 1 \<Longrightarrow> x \<notin> set (remove1 x xs)"
  by (induction xs) (auto simp: count_list_0_iff split: if_splits)

text \<open>
  C8, as amended. Evicting an entry that is not in the pool changes nothing and raises
  nothing.  Evicting an entry that is in the pool removes its first occurrence and keeps
  the rest in order.  When the pool holds the entry at most once, the entry is gone after
  one eviction and evicting it again gives the same pool: eviction is idempotent on such
  pools.
\<close>

theorem remove_proxy_first_occurrence:
  "(x \<notin> set (proxy_list p) \<longrightarrow> remove_proxy x p = p)
   \<and> (x \<in> set (proxy_list p) \<longrightarrow>
        (\<exists>ys zs. proxy_list p = ys @ x # zs \<and> x \<notin> set ys
                 \<and> remove_proxy x p = p\<lparr>proxy_list := ys @ zs\<rparr>))
   \<and> (count_list (proxy_list p) x \<le> 1 \<longrightarrow>
        x \<notin> set (proxy_list (remove_proxy x p))
        \<and> remove_proxy x (remove_proxy x p) = remove_proxy x p)"
proof (intro conjI impI)
  assume "x \<notin> set (proxy_list p)"
  then show "remove_proxy x p = p" by (simp add: remove_proxy_def)
next
  assume in_pool: "x \<in> set (proxy_list p)"
  then obtain ys zs where "proxy_list p = ys @ x # zs" "x \<notin> set ys" "remove1 x (proxy_list p) = ys @ zs"
    using remove1_first_occurrence by metis
  moreover have "remove_proxy x p = p\<lparr>proxy_list := remove1 x (proxy_list p)\<rparr>"
    using in_pool by (auto simp: remove_proxy_def)
  ultimately show "\<exists>ys zs. proxy_list p = ys @ x # zs \<and> x \<notin> set ys
                 \<and> remove_proxy x p = p\<lparr>proxy_list := ys @ zs\<rparr>"
    by metis
next
  assume once: "count_list (proxy_list p) x \<le> 1"
  show absent: "x \<notin> set (proxy_list (remove_proxy x p))"
    using remove1_once_absent [OF once] by (auto simp: remove_proxy_def)
  then show "remove_proxy x (remove_proxy x p) = remove_proxy x p"
    by (simp add: remove_proxy_def)
qed

theorem remove_proxy_first_occurrence_witness:
  "remove_proxy (''1.1.1.1'', 80) \<lparr>proxy_list = [(''2.2.2.2'', 81)], last_rotate_time = None, offset = 0\<rparr>
     = \<lparr>proxy_list = [(''2.2.2.2'', 81)], last_rotate_time = None, offset = 0\<rparr>
   \<and> (''1.1.1.1'', 80) \<notin> set (proxy_list (remove_proxy (''1.1.1.1'', 80)
         \<lparr>proxy_list = [(''2.2.2.2'', 81), (''1.1.1.1'', 80)], last_rotate_time = None, offset = 0\<rparr>))
   \<and> remove_proxy (''1.1.1.1'', 80) (remove_proxy (''1.1.1.1'', 80)
         \<lparr>proxy_list = [(''2.2.2.2'', 81), (''1.1.1.1'', 80)], last_rotate_time = None, offset = 0\<rparr>)
      = remove_proxy (''1.1.1.1'', 80)
         \<lparr>proxy_list = [(''2.2.2.2'', 81), (''1.1.1.1'', 80)], last_rotate_time = None, offset = 0\<rparr>"
  using remove_proxy_first_occurrence [of "(''1.1.1.1'', 80)"
      "\<lparr>proxy_list = [(''2.2.2.2'', 81)], last_rotate_time = None, offset = 0\<rparr>"]
    remove_proxy_first_occurrence [of "(''1.1.1.1'', 80)"
      "\<lparr>proxy_list = [(''2.2.2.2'', 81), (''1.1.1.1'', 80)], last_rotate_time = None, offset = 0\<rparr>"]
  by simp

section \<open>The proxy pool: when it is refreshed\<close>

text \<open>
  Against C7 as it is stated. A pool of five entries, refreshed at time 0 with an offset of 10 seconds, asked at time
  10: the elapsed time does not exceed the offset and the pool is not short, and the pool
  is replaced all the same, because the test of \<^verbatim>\<open>_check_time\<close> is \<^verbatim>\<open>>=\<close>.
\<close>

theorem rotate_proxies_at_offset_counterexample:
  "length (proxy_list \<lparr>proxy_list = [(''a'', 1), (''b'', 2), (''c'', 3), (''d'', 4), (''e'', 5)],
                       last_rotate_time = Some 0, offset = 10\<rparr>) = 5
   \<and> \<not> (10 - 0 > offset \<lparr>proxy_list = [(''a'', 1), (''b'', 2), (''c'', 3), (''d'', 4), (''e'', 5)],
                       last_rotate_time = Some 0, offset = 10\<rparr>)
   \<and> rotate_proxies
        \<lparr>proxy_list = [(''a'', 1), (''b'', 2), (''c'', 3), (''d'', 4), (''e'', 5)],
          last_rotate_time = Some 0, offset = 10\<rparr>
        \<lparr>clock = [10, 11], randoms = [],
          listings = [Inr [\<lparr>ip_address = ''f'', port = 6, country = ''United States''\<rparr>]],
          transports = [], stdout = []\<rparr>
      = Some (Inr (),
              \<lparr>proxy_list = [(''f'', 6)], last_rotate_time = Some 11, offset = 10\<rparr>,
              \<lparr>clock = [], randoms = [], listings = [], transports = [], stdout = []\<rparr>)"
  by (simp add: rotate_proxies_def check_time_def united_states_def)

text \<open>
  C7, as amended. When the listing can be fetched and parsed, \<^verbatim>\<open>rotate_proxies\<close>
  replaces the whole pool by the United States entries of the listing, and sets the time
  of the last rotation to a fresh reading, exactly when the pool has fewer than 5 entries
  or was never rotated or the time since the last rotation is at least \<open>offset\<close>
  seconds; otherwise the pool and the time of the last rotation stay as they are (only
  one reading of the clock is used up).
\<close>

theorem rotate_proxies_refresh_iff:
  assumes "clock w = now # t # c" and "listings w = Inr table # ls"
  shows "rotate_proxies p w =
     (if length (proxy_list p) < 5
         \<or> (case last_rotate_time p of None \<Rightarrow> True | Some rotated \<Rightarrow> now - rotated \<ge> offset p)
      then Some (Inr (), p\<lparr>proxy_list := united_states table, last_rotate_time := Some t\<rparr>,
                 w\<lparr>listings := ls, clock := c\<rparr>)
      else Some (Inr (), p, w\<lparr>clock := t # c\<rparr>))"
  using assms by (auto simp: rotate_proxies_def check_time_def split: option.splits)

theorem rotate_proxies_refresh_iff_witness:
  "rotate_proxies
        \<lparr>proxy_list = [(''a'', 1), (''b'', 2), (''c'', 3), (''d'', 4), (''e'', 5)],
          last_rotate_time = Some 0, offset = 10\<rparr>
        \<lparr>clock = [9, 11], randoms = [],
          listings = [Inr [\<lparr>ip_address = ''f'', port = 6, country = ''United States''\<rparr>]],
          transports = [], stdout = []\<rparr>
      = Some (Inr (),
              \<lparr>proxy_list = [(''a'', 1), (''b'', 2), (''c'', 3), (''d'', 4), (''e'', 5)],
                last_rotate_time = Some 0, offset = 10\<rparr>,
              \<lparr>clock = [11], randoms = [],
                listings = [Inr [\<lparr>ip_address = ''f'', port = 6, country = ''United States''\<rparr>]],
                transports = [], stdout = []\<rparr>)"
  using rotate_proxies_refresh_iff [of
        "\<lparr>clock = [9, 11], randoms = [],
          listings = [Inr [\<lparr>ip_address = ''f'', port = 6, country = ''United States''\<rparr>]],
          transports = [], stdout = []\<rparr>" 9 11 "[]"
        "[\<lparr>ip_address = ''f'', port = 6, country = ''United States''\<rparr>]" "[]"
        "\<lparr>proxy_list = [(''a'', 1), (''b'', 2), (''c'', 3), (''d'', 4), (''e'', 5)],
          last_rotate_time = Some 0, offset = 10\<rparr>"]
  by simp

section \<open>The request layer: one attempt and the retries\<close>

text \<open>The four ways one proxied attempt can end once a proxy was selected or not.\<close>

lemma make_request_body_select_raises:
  "select_proxy s w = Some (Inl e, s1, w1) \<Longrightarrow> make_request_body True s w = Some (Inl e, s1, w1)"
  by (simp add: make_request_body_def)

lemma make_request_body_returns:
  "select_proxy s w = Some (Inr x, s1, w1) \<Longrightarrow> limited_get s1 w1 = Some (Inr resp, s2, w2)
   \<Longrightarrow> make_request_body True s w = Some (Inr (Some resp), s2, w2)"
  by (simp add: make_request_body_def)

lemma make_request_body_timeout:
  "select_proxy s w = Some (Inr x, s1, w1) \<Longrightarrow> limited_get s1 w1 = Some (Inl Timeout, s2, w2)
   \<Longrightarrow> make_request_body True s w
       = Some (Inl Timeout, s2\<lparr>proxy_obj := remove_proxy x (proxy_obj s2)\<rparr>,
               print (RemovingBadProxy x) w2)"
  by (simp add: make_request_body_def remove_bad_proxy_def)

lemma make_request_body_swallows:
  "select_proxy s w = Some (Inr x, s1, w1) \<Longrightarrow> limited_get s1 w1 = Some (Inl e, s2, w2)
   \<Longrightarrow> e = TooManyRedirects \<or> e = OtherRequestException
   \<Longrightarrow> make_request_body True s w = Some (Inr None, s2, w2)"
  by (auto simp: make_request_body_def)

text \<open>The retry decorator, one step at a time.\<close>

lemma retrying_returns:
  "make_request_body u s w = Some (Inr r, s', w') \<Longrightarrow> retrying n u s w = Some (Inr r, s', w')"
  by (subst retrying.simps) simp

lemma retrying_raises:
  "make_request_body u s w = Some (Inl e, s', w') \<Longrightarrow> e \<noteq> Timeout
   \<Longrightarrow> retrying n u s w = Some (Inl e, s', w')"
  by (subst retrying.simps) simp

lemma retrying_again:
  "make_request_body u s w = Some (Inl Timeout, s', w') \<Longrightarrow> n < 3 \<Longrightarrow> m = n + 1
   \<Longrightarrow> retrying n u s w = retrying m u s' w'"
  by (subst retrying.simps) simp

lemma retrying_gives_up:
  "make_request_body u s w = Some (Inl Timeout, s', w') \<Longrightarrow> 3 \<le> n
   \<Longrightarrow> retrying n u s w = Some (Inl RetryError, s', w')"
  by (subst retrying.simps) simp

text \<open>What the steps of an attempt print and take from the transport.\<close>

lemma rotate_proxies_stdout:
  "rotate_proxies p w = Some (r, p', w') \<Longrightarrow> stdout w' = stdout w"
  by (auto simp: rotate_proxies_def check_time_def split: list.splits if_splits sum.splits)

lemma select_proxy_stdout:
  assumes "select_proxy s w = Some (Inr x, s1, w1)"
  shows "stdout w1 = stdout w @ [UsingProxy x]"
proof -
  from assms obtain u p wa wb where
    r: "rotate_proxies (proxy_obj s) w = Some (Inr u, p, wa)"
    and c: "random_choice (proxy_list p) wa = Some (Inr x, wb)"
    and w1: "w1 = print (UsingProxy x) wb"
    by (auto simp: select_proxy_def split: option.splits sum.splits)
  from c have "stdout wb = stdout wa"
    by (auto simp: random_choice_def split: if_splits list.splits)
  with rotate_proxies_stdout [OF r] w1 show ?thesis by (simp add: print_def)
qed

lemma limited_get_stdout:
  "limited_get s w = Some (r, s', w') \<Longrightarrow> stdout w' = stdout w"
  by (auto simp: limited_get_def split: option.splits list.splits)

lemma limited_get_transports:
  "limited_get s w = Some (r, s', w') \<Longrightarrow> transports w = r # transports w'"
  by (auto simp: limited_get_def split: option.splits list.splits)

lemma limited_get_admits:
  "limited_get s w = Some (r, s', w') \<Longrightarrow>
   limit (rate_limiter s) (clock w) = Some (rate_limiter s', clock w')"
  by (auto simp: limited_get_def split: option.splits list.splits)

lemma select_proxy_transports:
  "select_proxy s w = Some (r, s1, w1) \<Longrightarrow> transports w1 = transports w"
  by (auto simp: select_proxy_def rotate_proxies_def check_time_def random_choice_def print_def
      split: option.splits list.splits if_splits sum.splits)

lemma select_proxy_chosen:
  assumes "select_proxy s w = Some (Inr x, s1, w1)"
  shows "x \<in> set (proxy_list (proxy_obj s1))"
proof -
  from assms obtain u p wa wb where
    c: "random_choice (proxy_list p) wa = Some (Inr x, wb)" and s1: "s1 = s\<lparr>proxy_obj := p\<rparr>"
    by (auto simp: select_proxy_def split: option.splits sum.splits)
  from c obtain r where "proxy_list p \<noteq> []" and "x = proxy_list p ! (r mod length (proxy_list p))"
    by (auto simp: random_choice_def split: if_splits list.splits)
  then have "x \<in> set (proxy_list p)" by simp
  with s1 show ?thesis by simp
qed

lemma limited_get_proxy_obj:
  "limited_get s w = Some (r, s', w') \<Longrightarrow> proxy_obj s' = proxy_obj s"
  by (auto simp: limited_get_def split: option.splits list.splits)

lemma remove_proxy_present:
  assumes "x \<in> set (proxy_list p)"
  shows "proxy_list (remove_proxy x p) = remove1 x (proxy_list p)
    \<and> length (proxy_list (remove_proxy x p)) + 1 = length (proxy_list p)"
proof -
  have "0 < length (proxy_list p)" using assms by (cases "proxy_list p") auto
  with assms show ?thesis by (auto simp: remove_proxy_def length_remove1)
qed

text \<open>
  A timed-out attempt shrinks the pool: the proxy was chosen from the pool of the attempt,
  and the eviction takes its first occurrence out of that pool.
\<close>

lemma timed_out_attempt_evicts:
  assumes "select_proxy s w = Some (Inr x, s1, w1)" and "limited_get s1 w1 = Some (r, s1', w1')"
  shows "x \<in> set (proxy_list (proxy_obj s1))
    \<and> proxy_list (remove_proxy x (proxy_obj s1')) = remove1 x (proxy_list (proxy_obj s1))
    \<and> length (proxy_list (remove_proxy x (proxy_obj s1'))) + 1 = length (proxy_list (proxy_obj s1))"
proof -
  have chosen: "x \<in> set (proxy_list (proxy_obj s1))"
    using assms(1) by (rule select_proxy_chosen)
  have same: "proxy_obj s1' = proxy_obj s1"
    using assms(2) by (rule limited_get_proxy_obj)
  from remove_proxy_present [OF chosen] chosen show ?thesis
    unfolding same by blast
qed

lemma evictions_append: "evictions (xs @ ys) = evictions xs @ evictions ys"
  by (induction xs rule: evictions.induct) simp_all

text \<open>
  C4. A proxied fetch whose first two attempts each select a proxy, are admitted by the
  rate limiter and time out in the transport, and whose third attempt selects a proxy
  again.  Each timed-out attempt evicts the proxy it used: that proxy is in the pool it
  was chosen from, and the pool the next attempt starts from is that pool without the
  first occurrence of it, one entry shorter.  The next attempt starts from the scraper
  and the world the eviction left, with a new rotation, a new random choice and a new
  call of the limiter.  If the transport answers the third attempt, the answer
  is returned, and the output shows three selections and exactly two evictions, of the
  proxies of the two timed-out attempts; the transport was asked three times, and each
  attempt went through \<^verbatim>\<open>limit\<close> on its own.  If the third attempt times out too, its proxy
  is evicted in the same way and the call ends with \<open>RetryError\<close>: there is no fourth attempt.
\<close>

theorem make_request_two_timeouts:
  assumes a1: "select_proxy s w = Some (Inr x1, s1, w1)"
    and t1: "limited_get s1 w1 = Some (Inl Timeout, s1', w1')"
    and a2: "select_proxy (s1'\<lparr>proxy_obj := remove_proxy x1 (proxy_obj s1')\<rparr>)
               (print (RemovingBadProxy x1) w1') = Some (Inr x2, s2, w2)"
    and t2: "limited_get s2 w2 = Some (Inl Timeout, s2', w2')"
    and a3: "select_proxy (s2'\<lparr>proxy_obj := remove_proxy x2 (proxy_obj s2')\<rparr>)
               (print (RemovingBadProxy x2) w2') = Some (Inr x3, s3, w3)"
  shows "x1 \<in> set (proxy_list (proxy_obj s1))
       \<and> proxy_list (remove_proxy x1 (proxy_obj s1')) = remove1 x1 (proxy_list (proxy_obj s1))
       \<and> length (proxy_list (remove_proxy x1 (proxy_obj s1'))) + 1
           = length (proxy_list (proxy_obj s1))
       \<and> x2 \<in> set (proxy_list (proxy_obj s2))
       \<and> proxy_list (remove_proxy x2 (proxy_obj s2')) = remove1 x2 (proxy_list (proxy_obj s2))
       \<and> length (proxy_list (remove_proxy x2 (proxy_obj s2'))) + 1
           = length (proxy_list (proxy_obj s2))
       \<and> (limited_get s3 w3 = Some (Inr resp, s', w') \<longrightarrow>
            make_request True s w = Some (Inr (Some resp), s', w')
            \<and> stdout w' = stdout w @ [UsingProxy x1, RemovingBadProxy x1,
                                        UsingProxy x2, RemovingBadProxy x2, UsingProxy x3]
            \<and> evictions (stdout w') = evictions (stdout w) @ [x1, x2]
            \<and> transports w = Inl Timeout # Inl Timeout # Inr resp # transports w'
            \<and> limit (rate_limiter s1) (clock w1) = Some (rate_limiter s1', clock w1')
            \<and> limit (rate_limiter s2) (clock w2) = Some (rate_limiter s2', clock w2')
            \<and> limit (rate_limiter s3) (clock w3) = Some (rate_limiter s', clock w'))
       \<and> (limited_get s3 w3 = Some (Inl Timeout, s', w') \<longrightarrow>
            make_request True s w
              = Some (Inl RetryError, s'\<lparr>proxy_obj := remove_proxy x3 (proxy_obj s')\<rparr>,
                      print (RemovingBadProxy x3) w')
            \<and> proxy_list (remove_proxy x3 (proxy_obj s')) = remove1 x3 (proxy_list (proxy_obj s3))
            \<and> length (proxy_list (remove_proxy x3 (proxy_obj s'))) + 1
                = length (proxy_list (proxy_obj s3)))"
proof -
  let ?sa = "s1'\<lparr>proxy_obj := remove_proxy x1 (proxy_obj s1')\<rparr>"
  let ?wa = "print (RemovingBadProxy x1) w1'"
  let ?sb = "s2'\<lparr>proxy_obj := remove_proxy x2 (proxy_obj s2')\<rparr>"
  let ?wb = "print (RemovingBadProxy x2) w2'"
  have b1: "make_request_body True s w = Some (Inl Timeout, ?sa, ?wa)"
    using a1 t1 by (rule make_request_body_timeout)
  have b2: "make_request_body True ?sa ?wa = Some (Inl Timeout, ?sb, ?wb)"
    using a2 t2 by (rule make_request_body_timeout)
  have e1: "retrying 1 True s w = retrying 2 True ?sa ?wa"
    by (rule retrying_again [OF b1]) simp_all
  have e2: "retrying 2 True ?sa ?wa = retrying 3 True ?sb ?wb"
    by (rule retrying_again [OF b2]) simp_all
  have r1: "make_request True s w = retrying 3 True ?sb ?wb"
    unfolding make_request_def using e1 e2 by (rule trans)
  have out: "stdout w3 = stdout w @ [UsingProxy x1, RemovingBadProxy x1,
                                      UsingProxy x2, RemovingBadProxy x2, UsingProxy x3]"
    using select_proxy_stdout [OF a1] limited_get_stdout [OF t1]
      select_proxy_stdout [OF a2] limited_get_stdout [OF t2]
      select_proxy_stdout [OF a3]
    by (simp add: print_def)
  note ev1 = timed_out_attempt_evicts [OF a1 t1]
  note ev2 = timed_out_attempt_evicts [OF a2 t2]
  show ?thesis
  proof (intro conjI impI)
    show "x1 \<in> set (proxy_list (proxy_obj s1))"
      and "proxy_list (remove_proxy x1 (proxy_obj s1')) = remove1 x1 (proxy_list (proxy_obj s1))"
      and "length (proxy_list (remove_proxy x1 (proxy_obj s1'))) + 1
           = length (proxy_list (proxy_obj s1))"
      using ev1 by blast+
    show "x2 \<in> set (proxy_list (proxy_obj s2))"
      and "proxy_list (remove_proxy x2 (proxy_obj s2')) = remove1 x2 (proxy_list (proxy_obj s2))"
      and "length (proxy_list (remove_proxy x2 (proxy_obj s2'))) + 1
           = length (proxy_list (proxy_obj s2))"
      using ev2 by blast+
  next
    assume g: "limited_get s3 w3 = Some (Inr resp, s', w')"
    have "make_request_body True ?sb ?wb = Some (Inr (Some resp), s', w')"
      using a3 g by (rule make_request_body_returns)
    then show "make_request True s w = Some (Inr (Some resp), s', w')"
      unfolding r1 by (rule retrying_returns)
    show o: "stdout w' = stdout w @ [UsingProxy x1, RemovingBadProxy x1,
                                        UsingProxy x2, RemovingBadProxy x2, UsingProxy x3]"
      using out limited_get_stdout [OF g] by simp
    show "evictions (stdout w') = evictions (stdout w) @ [x1, x2]"
      unfolding o by (simp add: evictions_append)
    show "transports w = Inl Timeout # Inl Timeout # Inr resp # transports w'"
      using select_proxy_transports [OF a1] limited_get_transports [OF t1]
        select_proxy_transports [OF a2] limited_get_transports [OF t2]
        select_proxy_transports [OF a3] limited_get_transports [OF g]
      by (simp add: print_def)
    show "limit (rate_limiter s1) (clock w1) = Some (rate_limiter s1', clock w1')"
      using t1 by (rule limited_get_admits)
    show "limit (rate_limiter s2) (clock w2) = Some (rate_limiter s2', clock w2')"
      using t2 by (rule limited_get_admits)
    show "limit (rate_limiter s3) (clock w3) = Some (rate_limiter s', clock w')"
      using g by (rule limited_get_admits)
  next
    assume g: "limited_get s3 w3 = Some (Inl Timeout, s', w')"
    have "make_request_body True ?sb ?wb
            = Some (Inl Timeout, s'\<lparr>proxy_obj := remove_proxy x3 (proxy_obj s')\<rparr>,
                    print (RemovingBadProxy x3) w')"
      using a3 g by (rule make_request_body_timeout)
    then show "make_request True s w
              = Some (Inl RetryError, s'\<lparr>proxy_obj := remove_proxy x3 (proxy_obj s')\<rparr>,
                      print (RemovingBadProxy x3) w')"
      unfolding r1 by (rule retrying_gives_up) simp
    note ev3 = timed_out_attempt_evicts [OF a3 g]
    show "proxy_list (remove_proxy x3 (proxy_obj s')) = remove1 x3 (proxy_list (proxy_obj s3))"
      and "length (proxy_list (remove_proxy x3 (proxy_obj s'))) + 1
            = length (proxy_list (proxy_obj s3))"
      using ev3 by blast+
  qed
qed

text \<open>The definitions a concrete run of the request layer unfolds.\<close>

lemmas run_defs = make_request_def make_request_body_def select_proxy_def rotate_proxies_def
  check_time_def random_choice_def limited_get_def limit_def Scraper_def Proxy_def APIRateLimiter_def
  united_states_def print_def remove_bad_proxy_def remove_proxy_def

theorem make_request_two_timeouts_witness:
  "make_request True (Scraper 2 100)
     \<lparr>clock = [0, 0, 0, 0, 1, 1, 1, 2, 2, 2], randoms = [0, 0, 0],
       listings = [Inr [\<lparr>ip_address = ''a'', port = 1, country = ''United States''\<rparr>,
                        \<lparr>ip_address = ''b'', port = 2, country = ''United States''\<rparr>,
                        \<lparr>ip_address = ''c'', port = 3, country = ''United States''\<rparr>,
                        \<lparr>ip_address = ''d'', port = 4, country = ''United States''\<rparr>,
                        \<lparr>ip_address = ''e'', port = 5, country = ''United States''\<rparr>,
                        \<lparr>ip_address = ''f'', port = 6, country = ''United States''\<rparr>,
                        \<lparr>ip_address = ''g'', port = 7, country = ''United States''\<rparr>]],
       transports = [Inl Timeout, Inl Timeout,
                     Inr \<lparr>ok = True, resp_text = \<lparr>hrefs = [''/x''], error_404 = False\<rparr>\<rparr>],
       stdout = []\<rparr>
   = Some (Inr (Some \<lparr>ok = True, resp_text = \<lparr>hrefs = [''/x''], error_404 = False\<rparr>\<rparr>),
           \<lparr>urls = [], visited = {}, current_page = 1, current_counter = 0, depth = 2,
             proxy_obj = \<lparr>proxy_list = [(''c'', 3), (''d'', 4), (''e'', 5), (''f'', 6), (''g'', 7)],
                          last_rotate_time = Some 0, offset = 100\<rparr>,
             rate_limiter = \<lparr>rate_limit = Some 10, rate_second_delta = Some 1,
                             request_times = [1, 2]\<rparr>\<rparr>,
           \<lparr>clock = [], randoms = [], listings = [], transports = [],
             stdout = [UsingProxy (''a'', 1), RemovingBadProxy (''a'', 1),
                       UsingProxy (''b'', 2), RemovingBadProxy (''b'', 2),
                       UsingProxy (''c'', 3)]\<rparr>)"
  (is "make_request True ?S ?W = Some (Inr (Some ?R), ?S', ?W')")
proof -
  define r1 where "r1 = the (select_proxy ?S ?W)"
  define g1 where "g1 = the (limited_get (fst (snd r1)) (snd (snd r1)))"
  define sa where "sa = (fst (snd g1))\<lparr>proxy_obj := remove_proxy (''a'', 1) (proxy_obj (fst (snd g1)))\<rparr>"
  define wa where "wa = print (RemovingBadProxy (''a'', 1)) (snd (snd g1))"
  define r2 where "r2 = the (select_proxy sa wa)"
  define g2 where "g2 = the (limited_get (fst (snd r2)) (snd (snd r2)))"
  define sb where "sb = (fst (snd g2))\<lparr>proxy_obj := remove_proxy (''b'', 2) (proxy_obj (fst (snd g2)))\<rparr>"
  define wb where "wb = print (RemovingBadProxy (''b'', 2)) (snd (snd g2))"
  define r3 where "r3 = the (select_proxy sb wb)"
  have a1: "select_proxy ?S ?W = Some (Inr (''a'', 1), fst (snd r1), snd (snd r1))"
    unfolding r1_def by (simp add: run_defs)
  have t1: "limited_get (fst (snd r1)) (snd (snd r1)) = Some (Inl Timeout, fst (snd g1), snd (snd g1))"
    unfolding g1_def r1_def by (simp add: run_defs)
  have a2: "select_proxy sa wa = Some (Inr (''b'', 2), fst (snd r2), snd (snd r2))"
    unfolding r2_def sa_def wa_def g1_def r1_def by (simp add: run_defs)
  have t2: "limited_get (fst (snd r2)) (snd (snd r2)) = Some (Inl Timeout, fst (snd g2), snd (snd g2))"
    unfolding g2_def r2_def sa_def wa_def g1_def r1_def by (simp add: run_defs)
  have a3: "select_proxy sb wb = Some (Inr (''c'', 3), fst (snd r3), snd (snd r3))"
    unfolding r3_def sb_def wb_def g2_def r2_def sa_def wa_def g1_def r1_def by (simp add: run_defs)
  have g: "limited_get (fst (snd r3)) (snd (snd r3)) = Some (Inr ?R, ?S', ?W')"
    unfolding r3_def sb_def wb_def g2_def r2_def sa_def wa_def g1_def r1_def by (simp add: run_defs)
  from make_request_two_timeouts [OF a1 t1 a2 [unfolded sa_def wa_def] t2 a3 [unfolded sb_def wb_def]] g
  show ?thesis by blast
qed

section \<open>The request layer: an empty pool\<close>

text \<open>
  Against C6 as it is stated. A pool that is empty after the refresh (the listing has no United States row): the
  call ends with the \<open>IndexError\<close> of the random choice, not with \<open>EmptyPoolError\<close>.
\<close>

theorem make_request_empty_pool_counterexample:
  "make_request True (Scraper 2 100)
     \<lparr>clock = [0, 0, 0, 0], randoms = [0],
       listings = [Inr [\<lparr>ip_address = ''b'', port = 2, country = ''Canada''\<rparr>]],
       transports = [Inr \<lparr>ok = True, resp_text = \<lparr>hrefs = [], error_404 = False\<rparr>\<rparr>],
       stdout = []\<rparr>
   = Some (Inl IndexError,
           \<lparr>urls = [], visited = {}, current_page = 1, current_counter = 0, depth = 2,
             proxy_obj = \<lparr>proxy_list = [], last_rotate_time = Some 0, offset = 100\<rparr>,
             rate_limiter = \<lparr>rate_limit = Some 10, rate_second_delta = Some 1, request_times = []\<rparr>\<rparr>,
           \<lparr>clock = [0, 0], randoms = [0], listings = [],
             transports = [Inr \<lparr>ok = True, resp_text = \<lparr>hrefs = [], error_404 = False\<rparr>\<rparr>],
             stdout = []\<rparr>)
   \<and> fst (the (make_request True (Scraper 2 100)
     \<lparr>clock = [0, 0, 0, 0], randoms = [0],
       listings = [Inr [\<lparr>ip_address = ''b'', port = 2, country = ''Canada''\<rparr>]],
       transports = [Inr \<lparr>ok = True, resp_text = \<lparr>hrefs = [], error_404 = False\<rparr>\<rparr>],
       stdout = []\<rparr>)) \<noteq> Inl EmptyPoolError"
  by (simp add: run_defs retrying.simps)

lemma select_proxy_empty_pool:
  assumes "rotate_proxies (proxy_obj s) w = Some (Inr (), p, w1)" and "proxy_list p = []"
  shows "select_proxy s w = Some (Inl IndexError, s\<lparr>proxy_obj := p\<rparr>, w1)"
  using assms by (simp add: select_proxy_def random_choice_def)

text \<open>
  C6, as amended. Whenever the pool is empty after the refresh attempt, selecting a
  proxy raises the \<open>IndexError\<close> of \<^verbatim>\<open>random.choice\<close>; it is raised before the
  \<^verbatim>\<open>try\<close>, is not a timeout, so it is neither caught nor retried and reaches the
  caller of \<^verbatim>\<open>_make_request\<close>, with the refreshed pool left in place.
\<close>

theorem make_request_empty_pool:
  assumes "rotate_proxies (proxy_obj s) w = Some (Inr (), p, w1)" and "proxy_list p = []"
  shows "make_request True s w = Some (Inl IndexError, s\<lparr>proxy_obj := p\<rparr>, w1)"
proof -
  have "make_request_body True s w = Some (Inl IndexError, s\<lparr>proxy_obj := p\<rparr>, w1)"
    using select_proxy_empty_pool [OF assms] by (rule make_request_body_select_raises)
  then show ?thesis unfolding make_request_def by (rule retrying_raises) simp
qed

theorem make_request_empty_pool_witness:
  "make_request True (Scraper 2 100)
     \<lparr>clock = [0, 0], randoms = [], listings = [Inr []], transports = [], stdout = []\<rparr>
   = Some (Inl IndexError,
           (Scraper 2 100)\<lparr>proxy_obj := \<lparr>proxy_list = [], last_rotate_time = Some 0, offset = 100\<rparr>\<rparr>,
           \<lparr>clock = [], randoms = [], listings = [], transports = [], stdout = []\<rparr>)"
proof -
  have "rotate_proxies (proxy_obj (Scraper 2 100))
          \<lparr>clock = [0, 0], randoms = [], listings = [Inr []], transports = [], stdout = []\<rparr>
        = Some (Inr (), \<lparr>proxy_list = [], last_rotate_time = Some 0, offset = 100\<rparr>,
                \<lparr>clock = [], randoms = [], listings = [], transports = [], stdout = []\<rparr>)"
    by (simp add: rotate_proxies_def check_time_def Scraper_def Proxy_def united_states_def)
  from make_request_empty_pool [OF this] show ?thesis by simp
qed

section \<open>The request layer: other transport exceptions\<close>

text \<open>
  C5. A proxied request whose transport raises a request exception that is neither a
  timeout nor a redirect overflow (a refused connection, say): the \<^verbatim>\<open>except\<close> clause
  commented \<^verbatim>\<open>catastrophic error. bail.\<close> only prints, and the call returns \<^verbatim>\<open>None\<close>.
\<close>

theorem make_request_connection_error_returns_none:
  "make_request True (Scraper 2 100)
     \<lparr>clock = [0, 0, 0, 0], randoms = [0],
       listings = [Inr [\<lparr>ip_address = ''a'', port = 1, country = ''United States''\<rparr>]],
       transports = [Inl OtherRequestException], stdout = []\<rparr>
   = Some (Inr None,
           \<lparr>urls = [], visited = {}, current_page = 1, current_counter = 0, depth = 2,
             proxy_obj = \<lparr>proxy_list = [(''a'', 1)], last_rotate_time = Some 0, offset = 100\<rparr>,
             rate_limiter = \<lparr>rate_limit = Some 10, rate_second_delta = Some 1, request_times = [0]\<rparr>\<rparr>,
           \<lparr>clock = [], randoms = [], listings = [], transports = [],
             stdout = [UsingProxy (''a'', 1)]\<rparr>)"
  by (simp add: run_defs retrying.simps)

text \<open>
  C10. A proxied attempt that selected a proxy and whose transport raised a redirect
  overflow or another request exception: \<^verbatim>\<open>_make_request\<close> returns \<^verbatim>\<open>None\<close>;
  \<^verbatim>\<open>_request\<close> reads \<^verbatim>\<open>resp.text\<close> of it and ends with \<open>AttributeError\<close>; and
  \<^verbatim>\<open>scrape\<close>, on a frontier that is not empty, ends with \<open>AttributeError\<close> at its
  first URL, before any page is kept.
\<close>

theorem failed_fetch_crashes_callers:
  assumes sel: "select_proxy s w = Some (Inr x, s1, w1)"
    and get: "limited_get s1 w1 = Some (Inl e, s2, w2)"
    and e: "e = TooManyRedirects \<or> e = OtherRequestException"
  shows "make_request True s w = Some (Inr None, s2, w2)
    \<and> request base_url_map site s w = Some (Inl AttributeError, s2, w2)
    \<and> (urls s \<noteq> [] \<longrightarrow> scrape s w = Some (Inl AttributeError, s2, w2))"
proof -
  have "make_request_body True s w = Some (Inr None, s2, w2)"
    using sel get e by (rule make_request_body_swallows)
  then have m: "make_request True s w = Some (Inr None, s2, w2)"
    unfolding make_request_def by (rule retrying_returns)
  have r: "request base_url_map site s w = Some (Inl AttributeError, s2, w2)"
    using m by (simp add: request_def)
  have "urls s \<noteq> [] \<longrightarrow> scrape s w = Some (Inl AttributeError, s2, w2)"
    using m by (cases "urls s") (simp_all add: scrape_def)
  with m r show ?thesis by blast
qed

theorem failed_fetch_crashes_callers_witness:
  "request Map.empty ''realtor.com'' ((Scraper 2 100)\<lparr>urls := [''u'']\<rparr>)
     \<lparr>clock = [0, 0, 0, 0], randoms = [0],
       listings = [Inr [\<lparr>ip_address = ''a'', port = 1, country = ''United States''\<rparr>]],
       transports = [Inl TooManyRedirects], stdout = []\<rparr>
   = Some (Inl AttributeError,
           \<lparr>urls = [''u''], visited = {}, current_page = 1, current_counter = 0, depth = 2,
             proxy_obj = \<lparr>proxy_list = [(''a'', 1)], last_rotate_time = Some 0, offset = 100\<rparr>,
             rate_limiter = \<lparr>rate_limit = Some 10, rate_second_delta = Some 1, request_times = [0]\<rparr>\<rparr>,
           \<lparr>clock = [], randoms = [], listings = [], transports = [],
             stdout = [UsingProxy (''a'', 1)]\<rparr>)
   \<and> scrape ((Scraper 2 100)\<lparr>urls := [''u'']\<rparr>)
     \<lparr>clock = [0, 0, 0, 0], randoms = [0],
       listings = [Inr [\<lparr>ip_address = ''a'', port = 1, country = ''United States''\<rparr>]],
       transports = [Inl TooManyRedirects], stdout = []\<rparr>
   = Some (Inl AttributeError,
           \<lparr>urls = [''u''], visited = {}, current_page = 1, current_counter = 0, depth = 2,
             proxy_obj = \<lparr>proxy_list = [(''a'', 1)], last_rotate_time = Some 0, offset = 100\<rparr>,
             rate_limiter = \<lparr>rate_limit = Some 10, rate_second_delta = Some 1, request_times = [0]\<rparr>\<rparr>,
           \<lparr>clock = [], randoms = [], listings = [], transports = [],
             stdout = [UsingProxy (''a'', 1)]\<rparr>)"
  (is "request Map.empty ''realtor.com'' ?S ?W = Some (Inl AttributeError, ?S', ?W') \<and> _")
proof -
  have sel: "select_proxy ?S ?W = Some (Inr (''a'', 1),
      ?S\<lparr>proxy_obj := \<lparr>proxy_list = [(''a'', 1)], last_rotate_time = Some 0, offset = 100\<rparr>\<rparr>,
      \<lparr>clock = [0, 0], randoms = [], listings = [], transports = [Inl TooManyRedirects],
        stdout = [UsingProxy (''a'', 1)]\<rparr>)"
    by (simp add: run_defs)
  have get: "limited_get
      (?S\<lparr>proxy_obj := \<lparr>proxy_list = [(''a'', 1)], last_rotate_time = Some 0, offset = 100\<rparr>\<rparr>)
      \<lparr>clock = [0, 0], randoms = [], listings = [], transports = [Inl TooManyRedirects],
        stdout = [UsingProxy (''a'', 1)]\<rparr>
      = Some (Inl TooManyRedirects, ?S', ?W')"
    by (simp add: run_defs)
  from failed_fetch_crashes_callers [OF sel get, of Map.empty "''realtor.com''"]
  show ?thesis by (simp add: Scraper_def)
qed

section \<open>The crawler\<close>

text \<open>
  A request changes the pool, the limiter and the world, and nothing of the crawl: the
  frontier, the counter, the depth and the page number are as before, whatever the
  outcome and however many attempts were made.
\<close>

lemma limited_get_crawl:
  "limited_get s w = Some (r, s', w') \<Longrightarrow>
   urls s' = urls s \<and> current_counter s' = current_counter s \<and> depth s' = depth s
   \<and> current_page s' = current_page s"
  by (auto simp: limited_get_def split: option.splits list.splits)

lemma select_proxy_crawl:
  "select_proxy s w = Some (r, s', w') \<Longrightarrow>
   urls s' = urls s \<and> current_counter s' = current_counter s \<and> depth s' = depth s
   \<and> current_page s' = current_page s"
  by (auto simp: select_proxy_def split: option.splits sum.splits)

lemma make_request_body_crawl:
  assumes "make_request_body u s w = Some (r, s', w')"
  shows "urls s' = urls s \<and> current_counter s' = current_counter s \<and> depth s' = depth s
   \<and> current_page s' = current_page s"
proof (cases u)
  case False
  with assms show ?thesis
    by (auto simp: make_request_body_def split: option.splits sum.splits dest: limited_get_crawl)
next
  case True
  with assms obtain rs s1 w1 where sel: "select_proxy s w = Some (rs, s1, w1)"
    by (auto simp: make_request_body_def split: option.splits)
  note c1 = select_proxy_crawl [OF sel]
  show ?thesis
  proof (cases rs)
    case (Inl e)
    with assms True sel have "s' = s1" by (simp add: make_request_body_def)
    with c1 show ?thesis by simp
  next
    case (Inr x)
    with assms True sel obtain rg s2 w2 where get: "limited_get s1 w1 = Some (rg, s2, w2)"
      by (auto simp: make_request_body_def split: option.splits)
    note c2 = limited_get_crawl [OF get]
    from assms True sel Inr get
    have "s' = s2 \<or> s' = s2\<lparr>proxy_obj := remove_proxy x (proxy_obj s2)\<rparr>"
      by (auto simp: make_request_body_def remove_bad_proxy_def split: sum.splits if_splits)
    with c1 c2 show ?thesis by auto
  qed
qed

lemma retrying_crawl:
  "retrying n u s w = Some (r, s', w') \<Longrightarrow>
   urls s' = urls s \<and> current_counter s' = current_counter s \<and> depth s' = depth s
   \<and> current_page s' = current_page s"
proof (induction n u s w rule: retrying.induct)
  case (1 n u s w)
  from "1.prems" obtain rb sb wb where b: "make_request_body u s w = Some (rb, sb, wb)"
    by (subst (asm) retrying.simps) (auto split: option.splits)
  note cb = make_request_body_crawl [OF b]
  show ?case
  proof (cases "rb = Inl Timeout \<and> \<not> 3 \<le> n")
    case True
    then have "retrying n u s w = retrying (n + 1) u sb wb"
      using b by (subst retrying.simps) simp
    with "1.prems" have "retrying (n + 1) u sb wb = Some (r, s', w')" by simp
    moreover from True have "rb = Inl Timeout" and "\<not> 3 \<le> n" by simp_all
    ultimately have "urls s' = urls sb \<and> current_counter s' = current_counter sb
        \<and> depth s' = depth sb \<and> current_page s' = current_page sb"
      using "1.IH" [OF b refl _ refl refl] by blast
    with cb show ?thesis by simp
  next
    case False
    with "1.prems" b have "s' = sb"
      by (subst (asm) retrying.simps) (auto split: sum.splits if_splits)
    with cb show ?thesis by simp
  qed
qed

lemma make_request_crawl:
  "make_request u s w = Some (r, s', w') \<Longrightarrow>
   urls s' = urls s \<and> current_counter s' = current_counter s \<and> depth s' = depth s
   \<and> current_page s' = current_page s"
  unfolding make_request_def by (rule retrying_crawl)

lemma next_page_crawl:
  assumes "next_page ''realtor.com'' s w = Some (Inr soup, s', w')"
  shows "urls s' = urls s \<and> current_counter s' = current_counter s \<and> depth s' = depth s
   \<and> current_page s' = current_page s + 1"
proof -
  from assms obtain resp s1 where m: "make_request True s w = Some (Inr (Some resp), s1, w')"
    and s': "s' = s1\<lparr>current_page := current_page s1 + 1\<rparr>"
    by (auto simp: next_page_def Let_def split: option.splits sum.splits if_splits)
  from make_request_crawl [OF m] s' show ?thesis by simp
qed


text \<open>
  What \<^verbatim>\<open>_collect_urls\<close> appends: the matching links that fit into what is left of the
  depth budget, in document order, each behind the base URL of the site.
\<close>

lemma collect_links_take:
  assumes "base_url_map site = Some base"
  shows "collect_links base_url_map site links s =
     (Inr (),
      s\<lparr>urls := urls s @ map ((@) base)
                 (take (nat (depth s - current_counter s)) (filter detail_link links)),
        current_counter := current_counter s
            + int (length (take (nat (depth s - current_counter s)) (filter detail_link links)))\<rparr>)"
proof (induction links arbitrary: s)
  case Nil
  show ?case by simp
next
  case (Cons href links)
  show ?case
  proof (cases "depth s \<le> current_counter s")
    case True
    then show ?thesis by simp
  next
    case False
    then have k: "nat (depth s - current_counter s) = Suc (nat (depth s - (current_counter s + 1)))"
      by simp
    show ?thesis
    proof (cases "detail_link href")
      case True
      with False assms show ?thesis
        by (simp add: Cons.IH k del: nat_diff_distrib of_nat_Suc) 
    next
      case no: False
      with False show ?thesis by (simp add: Cons.IH)
    qed
  qed
qed

text \<open>The definitions a concrete crawl unfolds, besides those of the request layer.\<close>

lemmas crawl_defs = Let_def request_def next_page_def collect_urls_def detail_link_def retrying.simps






section \<open>The crawler: the depth budget\<close>

text \<open>
  What \<^verbatim>\<open>_request\<close> does on a page that fills what is left of the budget, when the
  page after it is fetched: the extraction appends the first matching links up to the
  budget, and the depth-limit exit resets the counter to 0 and the page number to 2 and
  leaves the loop by \<^verbatim>\<open>break\<close>, after which \<^verbatim>\<open>navigate\<close> goes on.
\<close>

lemma request_depth_limit:
  assumes base: "base_url_map ''realtor.com'' = Some base"
    and fetch: "make_request True s (print (StartingScrape location) w) = Some (Inr (Some resp), s1, w1)"
    and room: "current_counter s < depth s"
    and many: "nat (depth s - current_counter s) \<le> length (filter detail_link (hrefs (resp_text resp)))"
    and collect: "collect_urls base_url_map (resp_text resp) ''realtor.com'' s1 = (r, s2)"
    and nextp: "next_page ''realtor.com'' s2 w1 = Some (Inr soup, s3, w3)"
  shows "r = Inr ()
       \<and> urls s2 = urls s @ map ((@) base)
            (take (nat (depth s - current_counter s)) (filter detail_link (hrefs (resp_text resp))))
       \<and> length (urls s2) = length (urls s) + nat (depth s - current_counter s)
       \<and> current_counter s2 = depth s
       \<and> request base_url_map ''realtor.com'' s (print (StartingScrape location) w)
           = Some (Inr PyNone, s3\<lparr>current_counter := 0, current_page := 2\<rparr>,
                   print DepthLimitReached w3)
       \<and> navigate base_url_map ''realtor.com'' (location # locations) s w
           = navigate base_url_map ''realtor.com'' locations
               (s3\<lparr>current_counter := 0, current_page := 2\<rparr>) (print DepthLimitReached w3)"
proof -
  let ?k = "nat (depth s - current_counter s)"
  let ?ms = "take ?k (filter detail_link (hrefs (resp_text resp)))"
  note c1 = make_request_crawl [OF fetch]
  have len: "length ?ms = ?k" using many by simp
  have col: "collect_urls base_url_map (resp_text resp) ''realtor.com'' s1
      = (Inr (), s1\<lparr>urls := urls s1 @ map ((@) base) ?ms,
                    current_counter := current_counter s1 + int (length ?ms)\<rparr>)"
    unfolding collect_urls_def using collect_links_take [of base_url_map "''realtor.com''" base "hrefs (resp_text resp)" s1] base c1
    by simp
  with collect have r: "r = Inr ()"
    and s2: "s2 = s1\<lparr>urls := urls s1 @ map ((@) base) ?ms,
                    current_counter := current_counter s1 + int (length ?ms)\<rparr>"
    by simp_all
  have u2: "urls s2 = urls s @ map ((@) base) ?ms" using s2 c1 by simp
  have l2: "length (urls s2) = length (urls s) + ?k" using u2 len by simp
  have c2: "current_counter s2 = depth s" using s2 c1 len room by simp
  have d2: "depth s2 = depth s" using s2 c1 by simp
  note c3 = next_page_crawl [OF nextp]
  have grew: "length (urls s1) < length (urls s3)" using c3 l2 c1 room by simp
  have full: "\<not> current_counter s3 < depth s3" using c3 c2 d2 by simp
  have req: "request base_url_map ''realtor.com'' s (print (StartingScrape location) w)
           = Some (Inr PyNone, s3\<lparr>current_counter := 0, current_page := 2\<rparr>,
                   print DepthLimitReached w3)"
    using fetch collect r nextp grew full by (simp add: request_def)
  then have "navigate base_url_map ''realtor.com'' (location # locations) s w
           = navigate base_url_map ''realtor.com'' locations
               (s3\<lparr>current_counter := 0, current_page := 2\<rparr>) (print DepthLimitReached w3)"
    by simp
  with r u2 l2 c2 req show ?thesis by blast
qed
text \<open>
  C2. A scraper of depth 2 run over two locations of \<^verbatim>\<open>realtor.com\<close>.  The first page
  of location A has one matching link: the counter goes to 1, and \<^verbatim>\<open>_request\<close> leaves
  through the \<^verbatim>\<open>return True\<close> that stands inside its \<^verbatim>\<open>while True\<close>, with the
  counter still at 1.  The first page of location B has three matching links, more than
  the budget of 2: the frontier gains one entry from it, not two, before the depth-limit
  exit resets the counter to 0 and the page number to 2.
\<close>

theorem navigate_second_location_gains_one:
  "navigate [''realtor.com'' \<mapsto> ''http://r''] ''realtor.com'' [''A''] (Scraper 2 100)
     \<lparr>clock = [0, 0, 0, 0, 0, 0, 0, 0, 0, 0, 0, 0, 0, 0, 0, 0], randoms = [0, 0, 0, 0],
       listings = [Inr [\<lparr>ip_address = ''a'', port = 1, country = ''United States''\<rparr>],
                   Inr [\<lparr>ip_address = ''a'', port = 1, country = ''United States''\<rparr>],
                   Inr [\<lparr>ip_address = ''a'', port = 1, country = ''United States''\<rparr>],
                   Inr [\<lparr>ip_address = ''a'', port = 1, country = ''United States''\<rparr>]],
       transports = [Inr \<lparr>ok = True,
                           resp_text = \<lparr>hrefs = [''/realestateandhomes-detail/1''],
                                        error_404 = False\<rparr>\<rparr>,
                     Inr \<lparr>ok = True, resp_text = \<lparr>hrefs = [], error_404 = False\<rparr>\<rparr>,
                     Inr \<lparr>ok = True,
                           resp_text = \<lparr>hrefs = [''/realestateandhomes-detail/2'',
                                                 ''/realestateandhomes-detail/3'',
                                                 ''/realestateandhomes-detail/4''],
                                        error_404 = False\<rparr>\<rparr>,
                     Inr \<lparr>ok = True, resp_text = \<lparr>hrefs = [], error_404 = False\<rparr>\<rparr>],
       stdout = []\<rparr>
   = Some (Inr (),
           \<lparr>urls = [''http://r/realestateandhomes-detail/1''], visited = {}, current_page = 2,
             current_counter = 1, depth = 2,
             proxy_obj = \<lparr>proxy_list = [(''a'', 1)], last_rotate_time = Some 0, offset = 100\<rparr>,
             rate_limiter = \<lparr>rate_limit = Some 10, rate_second_delta = Some 1,
                             request_times = [0, 0]\<rparr>\<rparr>,
           \<lparr>clock = [0, 0, 0, 0, 0, 0, 0, 0], randoms = [0, 0],
             listings = [Inr [\<lparr>ip_address = ''a'', port = 1, country = ''United States''\<rparr>],
                         Inr [\<lparr>ip_address = ''a'', port = 1, country = ''United States''\<rparr>]],
             transports = [Inr \<lparr>ok = True,
                                 resp_text = \<lparr>hrefs = [''/realestateandhomes-detail/2'',
                                                       ''/realestateandhomes-detail/3'',
                                                       ''/realestateandhomes-detail/4''],
                                              error_404 = False\<rparr>\<rparr>,
                           Inr \<lparr>ok = True, resp_text = \<lparr>hrefs = [], error_404 = False\<rparr>\<rparr>],
             stdout = [StartingScrape ''A'', UsingProxy (''a'', 1), UsingProxy (''a'', 1)]\<rparr>)
   \<and> length (filter detail_link [''/realestateandhomes-detail/2'', ''/realestateandhomes-detail/3'',
                                  ''/realestateandhomes-detail/4'']) = 3
   \<and> navigate [''realtor.com'' \<mapsto> ''http://r''] ''realtor.com'' [''A'', ''B''] (Scraper 2 100)
     \<lparr>clock = [0, 0, 0, 0, 0, 0, 0, 0, 0, 0, 0, 0, 0, 0, 0, 0], randoms = [0, 0, 0, 0],
       listings = [Inr [\<lparr>ip_address = ''a'', port = 1, country = ''United States''\<rparr>],
                   Inr [\<lparr>ip_address = ''a'', port = 1, country = ''United States''\<rparr>],
                   Inr [\<lparr>ip_address = ''a'', port = 1, country = ''United States''\<rparr>],
                   Inr [\<lparr>ip_address = ''a'', port = 1, country = ''United States''\<rparr>]],
       transports = [Inr \<lparr>ok = True,
                           resp_text = \<lparr>hrefs = [''/realestateandhomes-detail/1''],
                                        error_404 = False\<rparr>\<rparr>,
                     Inr \<lparr>ok = True, resp_text = \<lparr>hrefs = [], error_404 = False\<rparr>\<rparr>,
                     Inr \<lparr>ok = True,
                           resp_text = \<lparr>hrefs = [''/realestateandhomes-detail/2'',
                                                 ''/realestateandhomes-detail/3'',
                                                 ''/realestateandhomes-detail/4''],
                                        error_404 = False\<rparr>\<rparr>,
                     Inr \<lparr>ok = True, resp_text = \<lparr>hrefs = [], error_404 = False\<rparr>\<rparr>],
       stdout = []\<rparr>
   = Some (Inr (),
           \<lparr>urls = [''http://r/realestateandhomes-detail/1'',
                    ''http://r/realestateandhomes-detail/2''],
             visited = {}, current_page = 2, current_counter = 0, depth = 2,
             proxy_obj = \<lparr>proxy_list = [(''a'', 1)], last_rotate_time = Some 0, offset = 100\<rparr>,
             rate_limiter = \<lparr>rate_limit = Some 10, rate_second_delta = Some 1,
                             request_times = [0, 0, 0, 0]\<rparr>\<rparr>,
           \<lparr>clock = [], randoms = [], listings = [], transports = [],
             stdout = [StartingScrape ''A'', UsingProxy (''a'', 1), UsingProxy (''a'', 1),
                       StartingScrape ''B'', UsingProxy (''a'', 1), UsingProxy (''a'', 1),
                       DepthLimitReached]\<rparr>)"
  by (simp add: run_defs crawl_defs)

end
